theory Spec2Isabelle
  imports Main
begin

section \<open>Data model\<close>

text \<open>
  The reducers of \<^verbatim>\<open>src/bundle.js\<close> never assign to an object they receive: they
  return their argument, or build a new object or array. Several properties of the
  program speak about object identity (\<^verbatim>\<open>===\<close> on objects), so objects live in an
  explicit heap and are denoted by addresses. An address is a natural number; the
  heap hands out \<open>next_addr\<close>, \<open>next_addr + 1\<close>, ... to the objects it creates.

  JavaScript's \<^verbatim>\<open>undefined\<close> is \<open>None\<close> throughout: an absent argument, an absent
  property of an action, an array element that is not an object.
  A JavaScript number is a double. The numbers of this program hold integers (the
  todo ids, the counter of \<open>addTodo\<close>) and are HOL integers; the one arithmetic
  operation of the program, the increment of the counter, rounds its result to a
  double (\<open>double_of_int\<close> below).

  A reference that the program holds always denotes an allocated object. The
  functions below are total: they read the heap at the address they are given, and
  the theorems that depend on what is read assume that the addresses are allocated
  (\<open>todo_list\<close>).
\<close>

type_synonym addr = nat

text \<open>A todo object \<^verbatim>\<open>{id, text, completed}\<close>. \<open>id\<close> and \<open>text\<close> are copied from the
  action and are \<open>None\<close> when the action has no such property.\<close>

record Todo =
  todo_id :: "int option"
  todo_text :: "string option"
  todo_completed :: bool

text \<open>An action object: the properties the program reads, \<^verbatim>\<open>type\<close>, \<^verbatim>\<open>id\<close>,
  \<^verbatim>\<open>text\<close> and \<^verbatim>\<open>filter\<close>.\<close>

record action =
  action_type :: string
  action_id :: "int option"
  action_text :: "string option"
  action_filter :: "string option"

text \<open>The application state object \<^verbatim>\<open>{todos, visibilityFilter}\<close>: a reference to the
  array of todos, and the filter string.\<close>

record AppState =
  todos_slice :: addr
  visibilityFilter_slice :: "string option"

text \<open>The heap: the todo objects, the arrays and the state objects, by address. An
  array holds references to todo objects (or \<^verbatim>\<open>undefined\<close>). Every address below
  \<open>next_addr\<close> is allocated.\<close>

record heap =
  todo_objs :: "addr \<Rightarrow> Todo"
  array_objs :: "addr \<Rightarrow> addr option list"
  state_objs :: "addr \<Rightarrow> AppState"
  next_addr :: addr

definition empty_heap :: heap where
  "empty_heap =
     \<lparr>todo_objs = (\<lambda>_. \<lparr>todo_id = None, todo_text = None, todo_completed = False\<rparr>),
      array_objs = (\<lambda>_. []),
      state_objs = (\<lambda>_. \<lparr>todos_slice = 0, visibilityFilter_slice = None\<rparr>),
      next_addr = 0\<rparr>"

text \<open>An object literal \<^verbatim>\<open>{...}\<close> and an array literal \<^verbatim>\<open>[...]\<close> create a new object
  at the next free address.\<close>

definition new_todo :: "heap \<Rightarrow> Todo \<Rightarrow> addr \<times> heap" where
  "new_todo h t =
     (next_addr h,
      h\<lparr>todo_objs := (todo_objs h)(next_addr h := t), next_addr := Suc (next_addr h)\<rparr>)"

definition new_array :: "heap \<Rightarrow> addr option list \<Rightarrow> addr \<times> heap" where
  "new_array h xs =
     (next_addr h,
      h\<lparr>array_objs := (array_objs h)(next_addr h := xs), next_addr := Suc (next_addr h)\<rparr>)"

definition new_state :: "heap \<Rightarrow> AppState \<Rightarrow> addr \<times> heap" where
  "new_state h s =
     (next_addr h,
      h\<lparr>state_objs := (state_objs h)(next_addr h := s), next_addr := Suc (next_addr h)\<rparr>)"

text \<open>Reading a property of \<^verbatim>\<open>undefined\<close> raises a \<^verbatim>\<open>TypeError\<close>; it is the only
  exception these functions can raise.\<close>

datatype error = TypeError

section \<open>Reducers\<close>

text \<open>
  \<^verbatim>\<open>const todo = (state, action) => { switch (action.type) { ... } }\<close>
  (lines 14-34). \<^verbatim>\<open>state\<close> is a reference to a todo object, or \<^verbatim>\<open>undefined\<close>.
  The \<^verbatim>\<open>TOGGLE_TODO\<close> case reads \<^verbatim>\<open>state.id\<close>, which raises when \<^verbatim>\<open>state\<close> is
  \<^verbatim>\<open>undefined\<close>; \<^verbatim>\<open>!==\<close> compares two ids, \<^verbatim>\<open>undefined\<close> being equal to itself only.
\<close>

definition todo :: "heap \<Rightarrow> addr option \<Rightarrow> action \<Rightarrow> error + (addr option \<times> heap)" where
  "todo h state action =
     (if action_type action = ''ADD_TODO'' then
        (let (r, h') = new_todo h
               \<lparr>todo_id = action_id action, todo_text = action_text action,
                todo_completed = False\<rparr>
         in Inr (Some r, h'))
      else if action_type action = ''TOGGLE_TODO'' then
        (case state of
           None \<Rightarrow> Inl TypeError
         | Some s \<Rightarrow>
             if todo_id (todo_objs h s) \<noteq> action_id action then Inr (state, h)
             else
               (let (r, h') = new_todo h
                      ((todo_objs h s)\<lparr>todo_completed := \<not> todo_completed (todo_objs h s)\<rparr>)
                in Inr (Some r, h')))
      else Inr (state, h))"

text \<open>\<^verbatim>\<open>state.map(t => todo(t, action))\<close>: the elements from left to right, the heap
  threaded through the calls; an exception of a call ends the loop.\<close>

fun map_todo :: "heap \<Rightarrow> addr option list \<Rightarrow> action \<Rightarrow> error + (addr option list \<times> heap)" where
  "map_todo h [] action = Inr ([], h)"
| "map_todo h (t # ts) action =
     (case todo h t action of
        Inl e \<Rightarrow> Inl e
      | Inr (t', h') \<Rightarrow>
          (case map_todo h' ts action of
             Inl e \<Rightarrow> Inl e
           | Inr (ts', h'') \<Rightarrow> Inr (t' # ts', h'')))"

text \<open>
  \<^verbatim>\<open>const todos = (state = [], action) => { switch (action.type) { ... } }\<close>
  (lines 43-60). The default parameter creates an empty array when \<^verbatim>\<open>state\<close> is
  \<^verbatim>\<open>undefined\<close>. The result is a reference to an array.
\<close>

definition todos_default :: "heap \<Rightarrow> addr option \<Rightarrow> addr \<times> heap" where
  "todos_default h state = (case state of None \<Rightarrow> new_array h [] | Some s \<Rightarrow> (s, h))"

definition todos :: "heap \<Rightarrow> addr option \<Rightarrow> action \<Rightarrow> error + (addr \<times> heap)" where
  "todos h state0 action =
     (let (state, h0) = todos_default h state0 in
      if action_type action = ''ADD_TODO'' then
        (case todo h0 None action of
           Inl e \<Rightarrow> Inl e
         | Inr (t, h1) \<Rightarrow> Inr (new_array h1 (array_objs h0 state @ [t])))
      else if action_type action = ''TOGGLE_TODO'' then
        (case map_todo h0 (array_objs h0 state) action of
           Inl e \<Rightarrow> Inl e
         | Inr (ts, h1) \<Rightarrow> Inr (new_array h1 ts))
      else Inr (state, h0))"

text \<open>
  \<^verbatim>\<open>const visibilityFilter = (state = 'SHOW_ALL', action) => { ... }\<close> (lines 69-76).
  Strings are values, not heap objects. The result is \<^verbatim>\<open>action.filter\<close> as it is,
  \<^verbatim>\<open>undefined\<close> when the action has no such property.
\<close>

definition visibilityFilter :: "string option \<Rightarrow> action \<Rightarrow> string option" where
  "visibilityFilter state0 action =
     (let state = (case state0 of None \<Rightarrow> ''SHOW_ALL'' | Some s \<Rightarrow> s) in
      if action_type action = ''SET_VISIBILITY_FILTER'' then action_filter action
      else Some state)"

section \<open>The root reducer and the store\<close>

text \<open>
  Modelled from the spec: \<^verbatim>\<open>combineReducers\<close> of the Redux library, which line 86
  applies to \<^verbatim>\<open>{todos, visibilityFilter}\<close> and whose code is not part of the
  repository. By section 4.4 of the specification the root reducer calls, for every
  declared key, the slice reducer with the prior slice (absent when the prior state
  is absent) and the action, ``and assembles a new state object mapping each key to
  its (possibly unchanged) result''. The slices are evaluated in the order of the
  keys; an exception of a reducer propagates. \<open>state\<close> is a reference to the prior
  state object, or \<^verbatim>\<open>undefined\<close>; the result is a reference to the new one.
\<close>

definition todoApp :: "heap \<Rightarrow> addr option \<Rightarrow> action \<Rightarrow> error + (addr \<times> heap)" where
  "todoApp h state action =
     (case todos h (map_option (\<lambda>s. todos_slice (state_objs h s)) state) action of
        Inl e \<Rightarrow> Inl e
      | Inr (ts, h') \<Rightarrow>
          Inr (new_state h'
                 \<lparr>todos_slice = ts,
                  visibilityFilter_slice =
                    visibilityFilter
                      (case state of
                         None \<Rightarrow> None
                       | Some s \<Rightarrow> visibilityFilter_slice (state_objs h s))
                      action\<rparr>))"

text \<open>
  Modelled from the spec: \<^verbatim>\<open>createStore\<close> and \<^verbatim>\<open>dispatch\<close> of the Redux library
  (line 277), by section 4.5: the store is created by one call of the root reducer
  with an absent prior state and a reserved initialisation action; a dispatch
  replaces the current state by the root reducer's result, which \<^verbatim>\<open>getState\<close> then
  returns. The store's current state is a reference to a state object.
\<close>

definition init_action :: action where
  "init_action =
     \<lparr>action_type = ''@@redux/INIT'', action_id = None, action_text = None,
      action_filter = None\<rparr>"

definition createStore :: "heap \<Rightarrow> error + (addr \<times> heap)" where
  "createStore h = todoApp h None init_action"

definition dispatch :: "heap \<Rightarrow> addr \<Rightarrow> action \<Rightarrow> error + (addr \<times> heap)" where
  "dispatch h state action = todoApp h (Some state) action"

fun dispatch_all :: "heap \<Rightarrow> addr \<Rightarrow> action list \<Rightarrow> error + (addr \<times> heap)" where
  "dispatch_all h state [] = Inr (state, h)"
| "dispatch_all h state (a # as) =
     (case dispatch h state a of
        Inl e \<Rightarrow> Inl e
      | Inr (state', h') \<Rightarrow> dispatch_all h' state' as)"

section \<open>Action creators\<close>

text \<open>The number of binary digits of a natural number.\<close>

fun bit_length :: "nat \<Rightarrow> nat" where
  "bit_length n = (if n = 0 then 0 else Suc (bit_length (n div 2)))"

text \<open>
  The double nearest to an integer \<open>x\<close> (IEEE 754 round to nearest, ties to even):
  a double has 53 significant binary digits, so an integer of \<open>53 + k\<close> digits is
  rounded to a multiple of \<open>2 ^ k\<close>; when it lies half way between two of them, the
  one with the even quotient is taken. Integers of at most 53 digits are doubles.
  (Overflow to \<^verbatim>\<open>Infinity\<close>, beyond \<open>2 ^ 1023\<close>, is left out: the counter starts at 0
  and never exceeds \<open>2 ^ 53\<close>.)
\<close>

definition double_of_int :: "int \<Rightarrow> int" where
  "double_of_int x =
     (let m = nat \<bar>x\<bar>;
          k = bit_length m - 53;
          q = m div 2 ^ k;
          r = m mod 2 ^ k;
          q' = (if 2 * r < 2 ^ k \<or> (2 * r = 2 ^ k \<and> even q) then q else q + 1)
      in sgn x * int (q' * 2 ^ k))"

text \<open>
  \<^verbatim>\<open>let nextTodoId = 0; const addTodo = (text) => ({type: 'ADD_TODO', id: nextTodoId++, text})\<close>
  (lines 97-104). The global counter is threaded: the function takes its value and
  returns the action with the incremented counter. \<^verbatim>\<open>nextTodoId++\<close> yields the old
  value and stores the double nearest to the old value plus one: from \<open>2 ^ 53\<close> on,
  that is the old value again.
\<close>

definition addTodo :: "int \<Rightarrow> string \<Rightarrow> action \<times> int" where
  "addTodo nextTodoId text' =
     (\<lparr>action_type = ''ADD_TODO'', action_id = Some nextTodoId, action_text = Some text',
       action_filter = None\<rparr>,
      double_of_int (nextTodoId + 1))"

definition toggleTodo :: "int \<Rightarrow> action" where
  "toggleTodo i =
     \<lparr>action_type = ''TOGGLE_TODO'', action_id = Some i, action_text = None,
      action_filter = None\<rparr>"

definition setVisibilityFilter :: "string \<Rightarrow> action" where
  "setVisibilityFilter f =
     \<lparr>action_type = ''SET_VISIBILITY_FILTER'', action_id = None, action_text = None,
      action_filter = Some f\<rparr>"

text \<open>The three places where the user interface dispatches: the button of
  \<^verbatim>\<open>AddTodo\<close> (line 214), a click on a todo (line 257), a click on a filter link
  (line 164). Each calls one action creator.\<close>

datatype event = AddTodo string | ToggleTodo int | SetVisibilityFilter string

fun create :: "int \<Rightarrow> event \<Rightarrow> action \<times> int" where
  "create n (AddTodo text') = addTodo n text'"
| "create n (ToggleTodo i) = (toggleTodo i, n)"
| "create n (SetVisibilityFilter f) = (setVisibilityFilter f, n)"

fun creates :: "int \<Rightarrow> event list \<Rightarrow> action list \<times> int" where
  "creates n [] = ([], n)"
| "creates n (e # es) =
     (let (a, n') = create n e; (as, n'') = creates n' es in (a # as, n''))"

section \<open>Selector\<close>

text \<open>\<^verbatim>\<open>todos.filter(t => p(t.completed))\<close>: the elements that satisfy the callback, in
  order. The callback reads \<^verbatim>\<open>t.completed\<close>, which raises on \<^verbatim>\<open>undefined\<close>.\<close>

fun filter_todos :: "heap \<Rightarrow> (bool \<Rightarrow> bool) \<Rightarrow> addr option list \<Rightarrow> error + addr option list" where
  "filter_todos h p [] = Inr []"
| "filter_todos h p (None # ts) = Inl TypeError"
| "filter_todos h p (Some t # ts) =
     (case filter_todos h p ts of
        Inl e \<Rightarrow> Inl e
      | Inr ys \<Rightarrow> Inr (if p (todo_completed (todo_objs h t)) then Some t # ys else ys))"

text \<open>
  \<^verbatim>\<open>const getVisibleTodos = (todos, filter) => { switch (filter) { ... } }\<close>
  (lines 224-240). The switch has no default case: with any other filter the
  function ends without a \<^verbatim>\<open>return\<close>, and its value is \<^verbatim>\<open>undefined\<close>.
  \<^verbatim>\<open>todos.filter\<close> raises when \<^verbatim>\<open>todos\<close> is \<^verbatim>\<open>undefined\<close>, and creates a new array
  otherwise.
\<close>

definition getVisibleTodos :: "heap \<Rightarrow> addr option \<Rightarrow> string option \<Rightarrow> error + (addr option \<times> heap)" where
  "getVisibleTodos h todos' filter' =
     (if filter' = Some ''SHOW_ALL'' then Inr (todos', h)
      else if filter' = Some ''SHOW_COMPLETED'' then
        (case todos' of
           None \<Rightarrow> Inl TypeError
         | Some r \<Rightarrow>
             (case filter_todos h (\<lambda>c. c) (array_objs h r) of
                Inl e \<Rightarrow> Inl e
              | Inr ys \<Rightarrow> (let (r', h') = new_array h ys in Inr (Some r', h'))))
      else if filter' = Some ''SHOW_ACTIVE'' then
        (case todos' of
           None \<Rightarrow> Inl TypeError
         | Some r \<Rightarrow>
             (case filter_todos h (\<lambda>c. \<not> c) (array_objs h r) of
                Inl e \<Rightarrow> Inl e
              | Inr ys \<Rightarrow> (let (r', h') = new_array h ys in Inr (Some r', h'))))
      else Inr (None, h))"

section \<open>Reading values out of the heap\<close>

text \<open>The sequence of todo records that an array denotes in a heap: what a deep
  comparison of two arrays compares.\<close>

definition todos_value :: "heap \<Rightarrow> addr \<Rightarrow> Todo option list" where
  "todos_value h r = map (map_option (todo_objs h)) (array_objs h r)"

text \<open>A reference to an allocated todo object (not \<^verbatim>\<open>undefined\<close>).\<close>

definition allocated :: "heap \<Rightarrow> addr option \<Rightarrow> bool" where
  "allocated h x = (case x of None \<Rightarrow> False | Some t \<Rightarrow> t < next_addr h)"

text \<open>An array of todos as the reducers build them: the array and its elements are
  allocated objects, and no element is \<^verbatim>\<open>undefined\<close>.\<close>

definition todo_list :: "heap \<Rightarrow> addr \<Rightarrow> bool" where
  "todo_list h r \<longleftrightarrow> r < next_addr h \<and> list_all (allocated h) (array_objs h r)"

text \<open>Every object of \<open>h\<close> is the same object in \<open>h'\<close>: nothing was written to an
  allocated address.\<close>

definition preserved :: "heap \<Rightarrow> heap \<Rightarrow> bool" where
  "preserved h h' \<longleftrightarrow>
     next_addr h \<le> next_addr h' \<and>
     (\<forall>p < next_addr h.
        todo_objs h' p = todo_objs h p \<and> array_objs h' p = array_objs h p \<and>
        state_objs h' p = state_objs h p)"

text \<open>What \<^verbatim>\<open>TOGGLE_TODO\<close> makes of one element \<open>x\<close> of the array, from heap \<open>h\<close> to
  heap \<open>h'\<close>: the same reference when the id differs, and otherwise a reference to an
  object created in between that is the old one with \<open>completed\<close> negated.\<close>

definition toggled :: "heap \<Rightarrow> heap \<Rightarrow> action \<Rightarrow> addr option \<Rightarrow> addr option \<Rightarrow> bool" where
  "toggled h h' a x y \<longleftrightarrow>
     (case x of
        None \<Rightarrow> False
      | Some t \<Rightarrow>
          if todo_id (todo_objs h t) \<noteq> action_id a then y = Some t
          else (case y of
                  None \<Rightarrow> False
                | Some t' \<Rightarrow>
                    next_addr h \<le> t' \<and> t' < next_addr h' \<and>
                    todo_objs h' t' =
                      (todo_objs h t)\<lparr>todo_completed := \<not> todo_completed (todo_objs h t)\<rparr>))"

text \<open>The ids of the todos of an array, in order (\<open>None\<close> for an id that is
  \<^verbatim>\<open>undefined\<close>).\<close>

definition todo_ids :: "heap \<Rightarrow> addr \<Rightarrow> int option list" where
  "todo_ids h r =
     map (\<lambda>x. case x of None \<Rightarrow> None | Some t \<Rightarrow> todo_id (todo_objs h t)) (array_objs h r)"

text \<open>The texts of the calls of \<open>addTodo\<close> among a sequence of events, in order.\<close>

fun added_texts :: "event list \<Rightarrow> string list" where
  "added_texts [] = []"
| "added_texts (AddTodo text' # es) = text' # added_texts es"
| "added_texts (e # es) = added_texts es"

text \<open>A heap for the examples: the todo objects \<^verbatim>\<open>{id: 0, text: 'buy milk', completed: false}\<close>
  at address 0 and \<^verbatim>\<open>{id: 1, text: 'walk dog', completed: true}\<close> at address 1, and
  the array of both at address 2.\<close>

definition example_heap :: heap where
  "example_heap =
     \<lparr>todo_objs = (todo_objs empty_heap)
        (0 := \<lparr>todo_id = Some 0, todo_text = Some ''buy milk'', todo_completed = False\<rparr>,
         1 := \<lparr>todo_id = Some 1, todo_text = Some ''walk dog'', todo_completed = True\<rparr>),
      array_objs = (array_objs empty_heap)(2 := [Some 0, Some 1]),
      state_objs = state_objs empty_heap,
      next_addr = 3\<rparr>"


section \<open>The heap is only extended\<close>

lemma preserved_refl: "preserved h h"
  by (simp add: preserved_def)

lemma preserved_trans: "preserved h h1 \<Longrightarrow> preserved h1 h2 \<Longrightarrow> preserved h h2"
  by (auto simp: preserved_def)

lemma preserved_new_todo: "preserved h (snd (new_todo h t))"
  by (simp add: preserved_def new_todo_def)

lemma preserved_new_array: "preserved h (snd (new_array h xs))"
  by (simp add: preserved_def new_array_def)

lemma todo_preserved:
  assumes "todo h s a = Inr (r, h')"
  shows "preserved h h' \<and> array_objs h' = array_objs h"
  using assms
  by (auto simp: todo_def new_todo_def preserved_def split: if_splits option.splits)

lemma map_todo_preserved:
  "map_todo h xs a = Inr (ys, h') \<Longrightarrow> preserved h h' \<and> array_objs h' = array_objs h"
proof (induction xs arbitrary: h ys)
  case Nil
  then show ?case by (simp add: preserved_refl)
next
  case (Cons x xs)
  from Cons.prems obtain y h1 ys' where
    1: "todo h x a = Inr (y, h1)" and 2: "map_todo h1 xs a = Inr (ys', h')"
    by (auto split: sum.splits)
  from todo_preserved[OF 1] Cons.IH[OF 2] show ?case
    by (auto intro: preserved_trans)
qed

lemma allocated_preserved: "preserved h h' \<Longrightarrow> allocated h x \<Longrightarrow> allocated h' x"
  by (auto simp: allocated_def preserved_def split: option.splits)

section \<open>Toggling the elements of an array\<close>

lemma todo_toggle:
  assumes "action_type a = ''TOGGLE_TODO''"
  shows "\<exists>y h'. todo h (Some t) a = Inr (y, h') \<and> toggled h h' a (Some t) y"
  using assms by (simp add: todo_def toggled_def new_todo_def)

lemma toggled_mono:
  assumes "toggled h1 h2 a x y" "preserved h h1" "preserved h2 h3" "allocated h x"
  shows "toggled h h3 a x y"
  using assms
  by (auto simp: toggled_def preserved_def allocated_def split: option.splits if_splits)

lemma map_todo_toggle:
  assumes "action_type a = ''TOGGLE_TODO''"
  shows "list_all (allocated h) xs \<Longrightarrow>
     \<exists>ys h'. map_todo h xs a = Inr (ys, h') \<and> list_all2 (toggled h h' a) xs ys"
proof (induction xs arbitrary: h)
  case Nil
  then show ?case by simp
next
  case (Cons x xs)
  then obtain t where x: "x = Some t" and t: "t < next_addr h"
    by (auto simp: allocated_def split: option.splits)
  from todo_toggle[OF assms, of h t] obtain y h1 where
    1: "todo h (Some t) a = Inr (y, h1)" and 2: "toggled h h1 a (Some t) y" by blast
  from todo_preserved[OF 1] have p1: "preserved h h1" by simp
  have "list_all (allocated h1) xs"
    using Cons.prems p1 by (auto simp: list_all_iff intro: allocated_preserved)
  from Cons.IH[OF this] obtain ys h2 where
    3: "map_todo h1 xs a = Inr (ys, h2)" and 4: "list_all2 (toggled h1 h2 a) xs ys" by blast
  from map_todo_preserved[OF 3] have p2: "preserved h1 h2" by simp
  have "toggled h h2 a x y"
    using toggled_mono[OF 2 preserved_refl p2] x t by (simp add: allocated_def)
  moreover have "list_all2 (toggled h h2 a) xs ys"
  proof (rule list.rel_mono_strong[OF 4])
    fix u v assume "u \<in> set xs" "v \<in> set ys" "toggled h1 h2 a u v"
    then show "toggled h h2 a u v"
      using toggled_mono[OF _ p1 preserved_refl, of h2 a u v] Cons.prems
      by (auto simp: list_all_iff)
  qed
  ultimately show ?case using 1 3 x by auto
qed

lemma todos_toggle:
  assumes "action_type a = ''TOGGLE_TODO''" and "todo_list h r"
  shows "\<exists>r' h1 h'. todos h (Some r) a = Inr (r', h') \<and> next_addr h \<le> r' \<and> r' < next_addr h' \<and>
           preserved h h1 \<and> preserved h1 h' \<and> todo_objs h' = todo_objs h1 \<and>
           list_all2 (toggled h h1 a) (array_objs h r) (array_objs h' r')"
proof -
  from assms(2) have "list_all (allocated h) (array_objs h r)"
    by (simp add: todo_list_def)
  from map_todo_toggle[OF assms(1) this] obtain ys h1 where
    1: "map_todo h (array_objs h r) a = Inr (ys, h1)" and
    2: "list_all2 (toggled h h1 a) (array_objs h r) ys" by blast
  from map_todo_preserved[OF 1] have p: "preserved h h1" by simp
  let ?h' = "snd (new_array h1 ys)"
  have "todos h (Some r) a = Inr (next_addr h1, ?h')"
    using assms(1) 1 by (simp add: todos_def todos_default_def new_array_def)
  moreover have "array_objs ?h' (next_addr h1) = ys" "todo_objs ?h' = todo_objs h1"
    "next_addr h1 < next_addr ?h'"
    by (simp_all add: new_array_def)
  moreover have "next_addr h \<le> next_addr h1" using p by (simp add: preserved_def)
  ultimately show ?thesis using 2 p preserved_new_array[of h1 ys] by auto
qed

lemma toggled_twice:
  assumes "toggled h h1 a x y" and "toggled h1' h2 a y z" and "allocated h x"
    and "preserved h h1" and "todo_objs h1' = todo_objs h1" and "next_addr h1 \<le> next_addr h1'"
    and "preserved h1' h2"
  shows "map_option (todo_objs h2) z = map_option (todo_objs h) x"
  using assms
  by (auto simp: toggled_def allocated_def preserved_def split: option.splits if_splits)

lemma toggled_allocated:
  assumes "toggled h h1 a x y" and "allocated h x" and "preserved h h1"
  shows "allocated h1 y"
  using assms
  by (auto simp: toggled_def allocated_def preserved_def split: option.splits if_splits)

lemma example_heap_todo_list: "todo_list example_heap 2"
  by (simp add: todo_list_def allocated_def example_heap_def)

section \<open>The counter of addTodo\<close>

declare bit_length.simps [simp del]

lemma bit_length_le_iff: "bit_length n \<le> w \<longleftrightarrow> n < 2 ^ w"
proof (induction n arbitrary: w rule: bit_length.induct)
  case (1 n)
  show ?case
  proof (cases "n = 0")
    case True
    then show ?thesis by (simp add: bit_length.simps)
  next
    case False
    show ?thesis
    proof (cases w)
      case 0
      with False show ?thesis by (simp add: bit_length.simps[of n])
    next
      case (Suc v)
      from "1.IH"[OF False, of v] have "bit_length (n div 2) \<le> v \<longleftrightarrow> n div 2 < 2 ^ v" .
      moreover have "n div 2 < 2 ^ v \<longleftrightarrow> n < 2 ^ Suc v" by auto
      ultimately show ?thesis using False Suc by (simp add: bit_length.simps[of n])
    qed
  qed
qed

lemma double_of_int_small: "\<bar>x\<bar> < 2 ^ 53 \<Longrightarrow> double_of_int x = x"
proof -
  assume a: "\<bar>x\<bar> < 2 ^ 53"
  then have "nat \<bar>x\<bar> < 2 ^ 53" by (simp add: nat_less_iff)
  then have "bit_length (nat \<bar>x\<bar>) - 53 = 0"
    using bit_length_le_iff[of "nat \<bar>x\<bar>" 53] by simp
  then show ?thesis
    by (simp add: double_of_int_def Let_def mult_sgn_abs)
qed

lemma bit_length_54: "2 ^ 53 \<le> n \<Longrightarrow> n < 2 ^ 54 \<Longrightarrow> bit_length n = 54"
  using bit_length_le_iff[of n 53] bit_length_le_iff[of n 54] by simp

lemma double_of_int_2_53: "double_of_int (2 ^ 53) = 2 ^ 53"
proof -
  have "bit_length (nat \<bar>2 ^ 53 :: int\<bar>) = 54"
    by (rule bit_length_54) simp_all
  then show ?thesis
    by (simp add: double_of_int_def Let_def)
qed

lemma double_of_int_2_53_1: "double_of_int (2 ^ 53 + 1) = 2 ^ 53"
proof -
  have "bit_length (nat \<bar>2 ^ 53 + 1 :: int\<bar>) = 54"
    by (rule bit_length_54) simp_all
  then show ?thesis
    by (simp add: double_of_int_def Let_def)
qed

lemma counter_increment:
  assumes "0 \<le> c" and "c \<le> 2 ^ 53"
  shows "double_of_int (c + 1) = min (c + 1) (2 ^ 53)"
proof -
  consider "c + 1 < 2 ^ 53" | "c + 1 = 2 ^ 53" | "c = 2 ^ 53"
    using assms by linarith
  then show ?thesis
  proof cases
    case 1
    with assms have "\<bar>c + 1\<bar> < 2 ^ 53" by simp
    from double_of_int_small[OF this] 1 show ?thesis by simp
  next
    case 2
    with double_of_int_2_53 show ?thesis by simp
  next
    case 3
    with double_of_int_2_53_1 show ?thesis by simp
  qed
qed

section \<open>The todos reducer\<close>

text \<open>
  Claim C1. For every heap, every prior array \<open>r\<close> of todos and every \<^verbatim>\<open>ADD_TODO\<close>
  action with id \<open>i\<close> and text \<open>t\<close>, \<open>todos\<close> returns a new array (its address \<open>r'\<close>
  was not allocated before) whose elements are those of the prior array followed by
  exactly one more, a reference \<open>e\<close> to a new object \<^verbatim>\<open>{id: i, text: t, completed: false}\<close>.
  That object is what the \<open>todo\<close> reducer returns for the action whatever prior todo
  \<open>s\<close> it is given. Every object allocated before is unchanged.
\<close>

theorem todos_add_todo_appends:
  assumes "action_type a = ''ADD_TODO''" and "action_id a = Some i" and "action_text a = Some t"
  shows "\<exists>e h1 r' h'.
           (\<forall>s. todo h s a = Inr (Some e, h1)) \<and>
           todos h (Some r) a = Inr (r', h') \<and>
           array_objs h' r' = array_objs h r @ [Some e] \<and>
           todo_objs h' e = \<lparr>todo_id = Some i, todo_text = Some t, todo_completed = False\<rparr> \<and>
           next_addr h \<le> e \<and> next_addr h \<le> r' \<and> preserved h h'"
  using assms
  by (simp add: todos_def todos_default_def todo_def new_todo_def new_array_def preserved_def)

theorem todos_add_todo_appends_witness:
  "\<exists>e r' h'. todos (snd (new_array empty_heap [])) (Some 0) (fst (addTodo 0 ''buy milk'')) = Inr (r', h') \<and>
       array_objs h' r' = [Some e] \<and>
       todo_objs h' e = \<lparr>todo_id = Some 0, todo_text = Some ''buy milk'', todo_completed = False\<rparr>"
proof -
  let ?a = "fst (addTodo 0 ''buy milk'')" and ?h = "snd (new_array empty_heap [])"
  have "action_type ?a = ''ADD_TODO''" "action_id ?a = Some 0" "action_text ?a = Some ''buy milk''"
    by (simp_all add: addTodo_def)
  from todos_add_todo_appends [OF this, of ?h 0] obtain e r' h' where
    "todos ?h (Some 0) ?a = Inr (r', h')"
    "array_objs h' r' = array_objs ?h 0 @ [Some e]"
    "todo_objs h' e = \<lparr>todo_id = Some 0, todo_text = Some ''buy milk'', todo_completed = False\<rparr>"
    by auto
  moreover have "array_objs ?h 0 = []"
    by (simp add: new_array_def empty_heap_def)
  ultimately show ?thesis by auto
qed

text \<open>
  Claim C2. For every array \<open>r\<close> of todos and every \<^verbatim>\<open>TOGGLE_TODO\<close> action, \<open>todos\<close>
  returns a new array of the same length in which, position by position, an element
  whose id differs from the action's id is the same reference as before, to an
  unchanged object, and an element whose id equals it is a reference to a new object
  (its address was not allocated before) with the same id and text and with
  \<open>completed\<close> negated. Every object allocated before is unchanged.
\<close>

theorem todos_toggle_todo_shares:
  assumes "action_type a = ''TOGGLE_TODO''" and "todo_list h r"
  shows "\<exists>r' h'. todos h (Some r) a = Inr (r', h') \<and> next_addr h \<le> r' \<and> preserved h h' \<and>
           length (array_objs h' r') = length (array_objs h r) \<and>
           (\<forall>j < length (array_objs h r). \<exists>t. array_objs h r ! j = Some t \<and>
              (if todo_id (todo_objs h t) \<noteq> action_id a
               then array_objs h' r' ! j = Some t \<and> todo_objs h' t = todo_objs h t
               else \<exists>t'. array_objs h' r' ! j = Some t' \<and> next_addr h \<le> t' \<and>
                      todo_id (todo_objs h' t') = todo_id (todo_objs h t) \<and>
                      todo_text (todo_objs h' t') = todo_text (todo_objs h t) \<and>
                      todo_completed (todo_objs h' t') = (\<not> todo_completed (todo_objs h t))))"
proof -
  from todos_toggle[OF assms] obtain r' h1 h' where
    1: "todos h (Some r) a = Inr (r', h')" "next_addr h \<le> r'" and
    p: "preserved h h1" "preserved h1 h'" and o: "todo_objs h' = todo_objs h1" and
    2: "list_all2 (toggled h h1 a) (array_objs h r) (array_objs h' r')" by blast
  have "\<exists>t. array_objs h r ! j = Some t \<and>
              (if todo_id (todo_objs h t) \<noteq> action_id a
               then array_objs h' r' ! j = Some t \<and> todo_objs h' t = todo_objs h t
               else \<exists>t'. array_objs h' r' ! j = Some t' \<and> next_addr h \<le> t' \<and>
                      todo_id (todo_objs h' t') = todo_id (todo_objs h t) \<and>
                      todo_text (todo_objs h' t') = todo_text (todo_objs h t) \<and>
                      todo_completed (todo_objs h' t') = (\<not> todo_completed (todo_objs h t)))"
    if j: "j < length (array_objs h r)" for j
  proof -
    from list_all2_nthD[OF 2 j] have t: "toggled h h1 a (array_objs h r ! j) (array_objs h' r' ! j)" .
    from assms(2) j have "allocated h (array_objs h r ! j)"
      by (simp add: todo_list_def list_all_length)
    with p(1) t show ?thesis
      by (auto simp: toggled_def allocated_def preserved_def o split: option.splits if_splits)
  qed
  with 1 p 2 show ?thesis
    by (auto dest: list_all2_lengthD intro: preserved_trans)
qed

theorem todos_toggle_todo_shares_witness:
  "\<exists>r' h'. todos example_heap (Some 2) (toggleTodo 0) = Inr (r', h') \<and>
      length (array_objs h' r') = 2 \<and>
      array_objs h' r' ! 1 = Some 1 \<and>
      (\<exists>t'. array_objs h' r' ! 0 = Some t' \<and> 3 \<le> t' \<and>
         todo_objs h' t' = \<lparr>todo_id = Some 0, todo_text = Some ''buy milk'', todo_completed = True\<rparr>)"
proof -
  have a: "action_type (toggleTodo 0) = ''TOGGLE_TODO''"
    by (simp add: toggleTodo_def)
  from todos_toggle_todo_shares [OF a example_heap_todo_list] obtain r' h' where
    1: "todos example_heap (Some 2) (toggleTodo 0) = Inr (r', h')" and
    2: "length (array_objs h' r') = length (array_objs example_heap 2)" and
    3: "\<forall>j < length (array_objs example_heap 2). \<exists>t. array_objs example_heap 2 ! j = Some t \<and>
              (if todo_id (todo_objs example_heap t) \<noteq> action_id (toggleTodo 0)
               then array_objs h' r' ! j = Some t \<and> todo_objs h' t = todo_objs example_heap t
               else \<exists>t'. array_objs h' r' ! j = Some t' \<and> next_addr example_heap \<le> t' \<and>
                      todo_id (todo_objs h' t') = todo_id (todo_objs example_heap t) \<and>
                      todo_text (todo_objs h' t') = todo_text (todo_objs example_heap t) \<and>
                      todo_completed (todo_objs h' t') = (\<not> todo_completed (todo_objs example_heap t)))"
    by blast
  from 3 [rule_format, of 0] 3 [rule_format, of 1]
  have "array_objs h' r' ! 1 = Some 1"
    and "\<exists>t'. array_objs h' r' ! 0 = Some t' \<and> 3 \<le> t' \<and>
         todo_objs h' t' = \<lparr>todo_id = Some 0, todo_text = Some ''buy milk'', todo_completed = True\<rparr>"
    by (auto simp: example_heap_def toggleTodo_def)
  with 1 2 show ?thesis by (simp add: example_heap_def)
qed

text \<open>
  Claim C9. For every array \<open>r\<close> of todos, applying \<open>todos\<close> twice with the same
  \<^verbatim>\<open>TOGGLE_TODO\<close> action gives an array that denotes the same sequence of todo records
  (same ids, texts and completed flags, in the same order) as the original one. The
  ids need not be unique for this: every element with the action's id is negated
  twice.
\<close>

theorem todos_toggle_twice:
  assumes "action_type a = ''TOGGLE_TODO''" and "todo_list h r"
  shows "\<exists>r1 h1 r2 h2. todos h (Some r) a = Inr (r1, h1) \<and> todos h1 (Some r1) a = Inr (r2, h2) \<and>
           todos_value h2 r2 = todos_value h r"
proof -
  let ?xs = "array_objs h r"
  from todos_toggle[OF assms] obtain r1 k1 h1 where
    1: "todos h (Some r) a = Inr (r1, h1)" "r1 < next_addr h1" and
    p1: "preserved h k1" "preserved k1 h1" and o1: "todo_objs h1 = todo_objs k1" and
    t1: "list_all2 (toggled h k1 a) ?xs (array_objs h1 r1)" by blast
  let ?ys = "array_objs h1 r1"
  from assms(2) have ax: "list_all (allocated h) ?xs" by (simp add: todo_list_def)
  have "list_all (allocated h1) ?ys"
    unfolding list_all_length
  proof (intro allI impI)
    fix j assume j: "j < length ?ys"
    with t1 have jx: "j < length ?xs" by (simp add: list_all2_lengthD)
    from list_all2_nthD[OF t1 jx] ax jx p1(1) have "allocated k1 (?ys ! j)"
      by (auto simp: list_all_length intro: toggled_allocated)
    with p1(2) show "allocated h1 (?ys ! j)" by (rule allocated_preserved)
  qed
  with 1(2) have "todo_list h1 r1" by (simp add: todo_list_def)
  from todos_toggle[OF assms(1) this] obtain r2 k2 h2 where
    2: "todos h1 (Some r1) a = Inr (r2, h2)" and
    p2: "preserved h1 k2" "preserved k2 h2" and o2: "todo_objs h2 = todo_objs k2" and
    t2: "list_all2 (toggled h1 k2 a) ?ys (array_objs h2 r2)" by blast
  let ?zs = "array_objs h2 r2"
  have len: "length ?zs = length ?xs"
    using t1 t2 by (simp add: list_all2_lengthD)
  have "map_option (todo_objs h2) (?zs ! j) = map_option (todo_objs h) (?xs ! j)"
    if j: "j < length ?xs" for j
  proof -
    from t1 j have jy: "j < length ?ys" by (simp add: list_all2_lengthD)
    have "map_option (todo_objs k2) (?zs ! j) = map_option (todo_objs h) (?xs ! j)"
    proof (rule toggled_twice)
      show "toggled h k1 a (?xs ! j) (?ys ! j)" by (rule list_all2_nthD[OF t1 j])
      show "toggled h1 k2 a (?ys ! j) (?zs ! j)" by (rule list_all2_nthD[OF t2 jy])
      show "allocated h (?xs ! j)" using ax j by (simp add: list_all_length)
      show "preserved h k1" by (rule p1(1))
      show "todo_objs h1 = todo_objs k1" by (rule o1)
      show "next_addr k1 \<le> next_addr h1" using p1(2) by (simp add: preserved_def)
      show "preserved h1 k2" by (rule p2(1))
    qed
    then show ?thesis by (simp add: o2)
  qed
  then have "todos_value h2 r2 = todos_value h r"
    unfolding todos_value_def using len by (simp add: list_eq_iff_nth_eq)
  with 1 2 show ?thesis by blast
qed

theorem todos_toggle_twice_witness:
  "\<exists>r1 h1 r2 h2. todos example_heap (Some 2) (toggleTodo 1) = Inr (r1, h1) \<and>
      todos h1 (Some r1) (toggleTodo 1) = Inr (r2, h2) \<and>
      todos_value h2 r2 =
        [Some \<lparr>todo_id = Some 0, todo_text = Some ''buy milk'', todo_completed = False\<rparr>,
         Some \<lparr>todo_id = Some 1, todo_text = Some ''walk dog'', todo_completed = True\<rparr>]"
proof -
  have a: "action_type (toggleTodo 1) = ''TOGGLE_TODO''"
    by (simp add: toggleTodo_def)
  have "todos_value example_heap 2 =
        [Some \<lparr>todo_id = Some 0, todo_text = Some ''buy milk'', todo_completed = False\<rparr>,
         Some \<lparr>todo_id = Some 1, todo_text = Some ''walk dog'', todo_completed = True\<rparr>]"
    by (simp add: todos_value_def example_heap_def)
  with todos_toggle_twice [OF a example_heap_todo_list] show ?thesis by simp
qed




section \<open>The todo reducer\<close>

text \<open>
  Claim C7, as stated, fails: \<open>todo\<close> raises a \<^verbatim>\<open>TypeError\<close> when the prior todo is
  \<^verbatim>\<open>undefined\<close> and the action is a \<^verbatim>\<open>TOGGLE_TODO\<close>, since line 23 reads
  \<^verbatim>\<open>state.id\<close>.
\<close>

theorem todo_raises_counterexample:
  "todo empty_heap None (toggleTodo 0) = Inl TypeError"
  by (simp add: todo_def toggleTodo_def)

text \<open>
  Claim C7, amended. \<open>todo\<close> returns a result for every prior todo that is an object
  and every action, and for an absent prior todo and every action whose type is not
  \<^verbatim>\<open>TOGGLE_TODO\<close>; it raises a \<^verbatim>\<open>TypeError\<close> exactly when the prior todo is absent and
  the action's type is \<^verbatim>\<open>TOGGLE_TODO\<close>.
\<close>

theorem todo_returns_iff:
  "(\<exists>res. todo h state a = Inr res) = (\<not> (state = None \<and> action_type a = ''TOGGLE_TODO'')) \<and>
   (todo h state a = Inl TypeError) = (state = None \<and> action_type a = ''TOGGLE_TODO'')"
  by (cases state) (auto simp: todo_def new_todo_def split: if_splits)

theorem todo_returns_iff_witness:
  "(\<exists>res. todo example_heap (Some 0) (toggleTodo 0) = Inr res) \<and>
   (\<exists>res. todo example_heap None (fst (addTodo 0 ''buy milk'')) = Inr res) \<and>
   (\<exists>res. todo example_heap None init_action = Inr res)"
  using todo_returns_iff [of example_heap "Some 0" "toggleTodo 0"]
    todo_returns_iff [of example_heap None "fst (addTodo 0 ''buy milk'')"]
    todo_returns_iff [of example_heap None init_action]
  by (simp add: addTodo_def init_action_def)

section \<open>The visibilityFilter reducer\<close>

text \<open>
  Claim C3. \<open>visibilityFilter\<close> treats an absent prior filter as \<^verbatim>\<open>'SHOW_ALL'\<close>; for a
  \<^verbatim>\<open>SET_VISIBILITY_FILTER\<close> action it returns the action's \<open>filter\<close> property as it
  is, whatever its value; for an action of any other type it returns the prior
  filter.
\<close>

theorem visibilityFilter_cases:
  "visibilityFilter None a = visibilityFilter (Some ''SHOW_ALL'') a \<and>
   (action_type a = ''SET_VISIBILITY_FILTER'' \<longrightarrow> visibilityFilter s a = action_filter a) \<and>
   (action_type a \<noteq> ''SET_VISIBILITY_FILTER'' \<longrightarrow>
      visibilityFilter (Some f) a = Some f)"
  by (simp add: visibilityFilter_def)

theorem visibilityFilter_cases_witness:
  "visibilityFilter (Some ''SHOW_ACTIVE'') (setVisibilityFilter ''SHOW_NOTHING'') = Some ''SHOW_NOTHING'' \<and>
   visibilityFilter (Some ''SHOW_ACTIVE'') (toggleTodo 0) = Some ''SHOW_ACTIVE'' \<and>
   visibilityFilter None (toggleTodo 0) = Some ''SHOW_ALL''"
  using visibilityFilter_cases [of "setVisibilityFilter ''SHOW_NOTHING''" "Some ''SHOW_ACTIVE''"]
    visibilityFilter_cases [of "toggleTodo 0" None "''SHOW_ACTIVE''"]
    visibilityFilter_cases [of "toggleTodo 0" None "''SHOW_ALL''"]
  by (simp add: setVisibilityFilter_def toggleTodo_def)

section \<open>The selector\<close>

lemma filter_todos_filter:
  "list_all (allocated h) xs \<Longrightarrow>
   filter_todos h p xs =
     Inr (filter (\<lambda>x. case x of None \<Rightarrow> False | Some t \<Rightarrow> p (todo_completed (todo_objs h t))) xs)"
  by (induction xs) (auto simp: allocated_def split: option.splits)

text \<open>
  Claim C4. For every array \<open>r\<close> of todos, \<open>getVisibleTodos\<close> returns \<open>r\<close> itself and
  the heap as it was when the filter is \<^verbatim>\<open>'SHOW_ALL'\<close>; with \<^verbatim>\<open>'SHOW_COMPLETED'\<close> it
  returns a new array holding, in order, exactly the elements of \<open>r\<close> whose
  \<open>completed\<close> is true, and with \<^verbatim>\<open>'SHOW_ACTIVE'\<close> exactly those whose \<open>completed\<close> is
  false. No object allocated before is changed.
\<close>

theorem getVisibleTodos_filters:
  assumes "todo_list h r"
  shows "getVisibleTodos h (Some r) (Some ''SHOW_ALL'') = Inr (Some r, h) \<and>
    (\<exists>r' h'. getVisibleTodos h (Some r) (Some ''SHOW_COMPLETED'') = Inr (Some r', h') \<and>
       array_objs h' r' =
         filter (\<lambda>x. case x of None \<Rightarrow> False | Some t \<Rightarrow> todo_completed (todo_objs h t))
           (array_objs h r) \<and>
       next_addr h \<le> r' \<and> preserved h h') \<and>
    (\<exists>r' h'. getVisibleTodos h (Some r) (Some ''SHOW_ACTIVE'') = Inr (Some r', h') \<and>
       array_objs h' r' =
         filter (\<lambda>x. case x of None \<Rightarrow> False | Some t \<Rightarrow> \<not> todo_completed (todo_objs h t))
           (array_objs h r) \<and>
       next_addr h \<le> r' \<and> preserved h h')"
proof -
  from assms have "list_all (allocated h) (array_objs h r)"
    by (simp add: todo_list_def)
  then show ?thesis
    by (simp add: getVisibleTodos_def filter_todos_filter new_array_def preserved_def)
qed

theorem getVisibleTodos_filters_witness:
  "getVisibleTodos example_heap (Some 2) (Some ''SHOW_ALL'') = Inr (Some 2, example_heap) \<and>
   (\<exists>r' h'. getVisibleTodos example_heap (Some 2) (Some ''SHOW_COMPLETED'') = Inr (Some r', h') \<and>
      array_objs h' r' = [Some 1]) \<and>
   (\<exists>r' h'. getVisibleTodos example_heap (Some 2) (Some ''SHOW_ACTIVE'') = Inr (Some r', h') \<and>
      array_objs h' r' = [Some 0])"
proof -
  have "filter (\<lambda>x. case x of None \<Rightarrow> False | Some t \<Rightarrow> todo_completed (todo_objs example_heap t))
           (array_objs example_heap 2) = [Some 1]"
    and "filter (\<lambda>x. case x of None \<Rightarrow> False | Some t \<Rightarrow> \<not> todo_completed (todo_objs example_heap t))
           (array_objs example_heap 2) = [Some 0]"
    by (simp_all add: example_heap_def)
  with getVisibleTodos_filters [OF example_heap_todo_list] show ?thesis
    by auto
qed

text \<open>
  Claim C10. For every filter value other than \<^verbatim>\<open>'SHOW_ALL'\<close>, \<^verbatim>\<open>'SHOW_COMPLETED'\<close> and
  \<^verbatim>\<open>'SHOW_ACTIVE'\<close> (an absent filter too) and every first argument,
  \<open>getVisibleTodos\<close> returns \<^verbatim>\<open>undefined\<close>: it neither raises nor returns the todos.
\<close>

theorem getVisibleTodos_unknown_filter:
  assumes "f \<noteq> Some ''SHOW_ALL''" and "f \<noteq> Some ''SHOW_COMPLETED''" and "f \<noteq> Some ''SHOW_ACTIVE''"
  shows "getVisibleTodos h ts f = Inr (None, h)"
  using assms by (simp add: getVisibleTodos_def)

theorem getVisibleTodos_unknown_filter_witness:
  "getVisibleTodos example_heap (Some 2) (Some ''SHOW_NOTHING'') = Inr (None, example_heap) \<and>
   getVisibleTodos example_heap (Some 2) None = Inr (None, example_heap)"
  using getVisibleTodos_unknown_filter [of "Some ''SHOW_NOTHING''" example_heap "Some 2"]
    getVisibleTodos_unknown_filter [of None example_heap "Some 2"]
  by simp

section \<open>Scenarios\<close>

text \<open>
  Claim C5. From any heap, the store is created with the state
  \<^verbatim>\<open>{todos: [], visibilityFilter: 'SHOW_ALL'}\<close>. Dispatching
  \<^verbatim>\<open>addTodo('buy milk')\<close>, \<^verbatim>\<open>toggleTodo(0)\<close>, \<^verbatim>\<open>addTodo('walk dog')\<close> and
  \<^verbatim>\<open>setVisibilityFilter('SHOW_COMPLETED')\<close> in this order, with the counter of
  \<open>addTodo\<close> starting at 0, gives a state on whose todos and filter \<open>getVisibleTodos\<close>
  returns an array that denotes \<^verbatim>\<open>[{id: 0, text: 'buy milk', completed: true}]\<close>.
\<close>

theorem scenario_C:
  "\<exists>s0 h0 s h1 r h2.
     createStore h = Inr (s0, h0) \<and>
     array_objs h0 (todos_slice (state_objs h0 s0)) = [] \<and>
     visibilityFilter_slice (state_objs h0 s0) = Some ''SHOW_ALL'' \<and>
     dispatch_all h0 s0
       (fst (creates 0 [AddTodo ''buy milk'', ToggleTodo 0, AddTodo ''walk dog'',
                        SetVisibilityFilter ''SHOW_COMPLETED''])) = Inr (s, h1) \<and>
     getVisibleTodos h1 (Some (todos_slice (state_objs h1 s))) (visibilityFilter_slice (state_objs h1 s)) =
       Inr (Some r, h2) \<and>
     todos_value h2 r =
       [Some \<lparr>todo_id = Some 0, todo_text = Some ''buy milk'', todo_completed = True\<rparr>]"
  by (simp add: createStore_def todoApp_def todos_def todos_default_def todo_def
      visibilityFilter_def dispatch_def init_action_def addTodo_def toggleTodo_def
      setVisibilityFilter_def getVisibleTodos_def new_array_def new_todo_def new_state_def
      todos_value_def double_of_int_small)

section \<open>The ids of the todos\<close>

lemma creates_add_ids:
  assumes "0 \<le> c" and "c \<le> 2 ^ 53"
  shows "map action_id (filter (\<lambda>a. action_type a = ''ADD_TODO'') (fst (creates c evs))) =
     map (\<lambda>k. Some (min (c + int k) (2 ^ 53))) [0..<length (added_texts evs)] \<and>
   snd (creates c evs) = min (c + int (length (added_texts evs))) (2 ^ 53)"
  using assms
proof (induction evs arbitrary: c)
  case Nil
  then show ?case by simp
next
  case (Cons e es)
  show ?case
  proof (cases e)
    case (AddTodo t)
    let ?c' = "double_of_int (c + 1)"
    have c': "?c' = min (c + 1) (2 ^ 53)"
      using Cons.prems by (rule counter_increment)
    with Cons.prems have "0 \<le> ?c'" "?c' \<le> 2 ^ 53" by simp_all
    from Cons.IH[OF this] have
      1: "map action_id (filter (\<lambda>a. action_type a = ''ADD_TODO'') (fst (creates ?c' es))) =
          map (\<lambda>k. Some (min (?c' + int k) (2 ^ 53))) [0..<length (added_texts es)]"
      and 2: "snd (creates ?c' es) = min (?c' + int (length (added_texts es))) (2 ^ 53)"
      by simp_all
    have 3: "min (?c' + int k) (2 ^ 53) = min (c + int (Suc k)) (2 ^ 53)" for k
      using Cons.prems by (simp add: c' min_def)
    from 1 have i1: "map action_id (filter (\<lambda>a. action_type a = ''ADD_TODO'') (fst (creates ?c' es))) =
          map (\<lambda>k. Some (min (c + int (Suc k)) (2 ^ 53))) [0..<length (added_texts es)]"
      by (simp only: 3)
    have "map action_id (filter (\<lambda>a. action_type a = ''ADD_TODO'') (fst (creates c (e # es)))) =
          Some c # map (\<lambda>k. Some (min (c + int (Suc k)) (2 ^ 53))) [0..<length (added_texts es)]"
      using AddTodo i1 by (simp add: addTodo_def split_beta del: of_nat_Suc)
    moreover have "snd (creates c (e # es)) = min (c + int (Suc (length (added_texts es)))) (2 ^ 53)"
      using AddTodo 2 3[of "length (added_texts es)"] by (simp add: addTodo_def split_beta)
    moreover have "min c (2 ^ 53) = c" using Cons.prems by simp
    ultimately show ?thesis
      using AddTodo by (simp add: map_upt_Suc del: upt_Suc of_nat_Suc)
  next
    case (ToggleTodo i)
    with Cons.IH[OF Cons.prems] show ?thesis
      by (simp add: toggleTodo_def split_beta)
  next
    case (SetVisibilityFilter f)
    with Cons.IH[OF Cons.prems] show ?thesis
      by (simp add: setVisibilityFilter_def split_beta)
  qed
qed

lemma added_texts_replicate: "added_texts (replicate n (AddTodo t)) = replicate n t"
  by (induction n) simp_all

lemma todos_add_ids:
  assumes "action_type a = ''ADD_TODO''" and "todo_list h r"
  shows "\<exists>r' h'. todos h (Some r) a = Inr (r', h') \<and> todo_list h' r' \<and>
           todo_ids h' r' = todo_ids h r @ [action_id a]"
  using assms
  by (auto simp: todos_def todos_default_def todo_def new_todo_def new_array_def todo_list_def
      todo_ids_def allocated_def list_all_iff split: option.splits)

lemma toggled_id:
  assumes "toggled h h1 a x y" and "allocated h x" and "preserved h h1"
  shows "(case y of None \<Rightarrow> None | Some t \<Rightarrow> todo_id (todo_objs h1 t)) =
         (case x of None \<Rightarrow> None | Some t \<Rightarrow> todo_id (todo_objs h t))"
  using assms
  by (auto simp: toggled_def allocated_def preserved_def split: option.splits if_splits)

lemma todos_toggle_ids:
  assumes "action_type a = ''TOGGLE_TODO''" and "todo_list h r"
  shows "\<exists>r' h'. todos h (Some r) a = Inr (r', h') \<and> todo_list h' r' \<and>
           todo_ids h' r' = todo_ids h r"
proof -
  let ?xs = "array_objs h r"
  from todos_toggle[OF assms] obtain r' h1 h' where
    1: "todos h (Some r) a = Inr (r', h')" "r' < next_addr h'" and
    p: "preserved h h1" "preserved h1 h'" and o: "todo_objs h' = todo_objs h1" and
    t: "list_all2 (toggled h h1 a) ?xs (array_objs h' r')" by blast
  let ?ys = "array_objs h' r'"
  from assms(2) have ax: "list_all (allocated h) ?xs" by (simp add: todo_list_def)
  have len: "length ?ys = length ?xs" using t by (simp add: list_all2_lengthD)
  have el: "allocated h' (?ys ! j) \<and>
      (case ?ys ! j of None \<Rightarrow> None | Some t \<Rightarrow> todo_id (todo_objs h' t)) =
      (case ?xs ! j of None \<Rightarrow> None | Some t \<Rightarrow> todo_id (todo_objs h t))"
    if j: "j < length ?xs" for j
  proof -
    from list_all2_nthD[OF t j] have tj: "toggled h h1 a (?xs ! j) (?ys ! j)" .
    from ax j have aj: "allocated h (?xs ! j)" by (simp add: list_all_length)
    from toggled_allocated[OF tj aj p(1)] p(2) have "allocated h' (?ys ! j)"
      by (rule allocated_preserved[rotated])
    with toggled_id[OF tj aj p(1)] show ?thesis by (simp add: o cong: option.case_cong)
  qed
  have "list_all (allocated h') ?ys"
    using el len by (simp add: list_all_length)
  moreover have "todo_ids h' r' = todo_ids h r"
    unfolding todo_ids_def using el len by (simp add: list_eq_iff_nth_eq)
  ultimately show ?thesis using 1 by (auto simp: todo_list_def)
qed

lemma todos_ids:
  assumes "todo_list h r"
  shows "\<exists>r' h'. todos h (Some r) a = Inr (r', h') \<and> todo_list h' r' \<and>
           todo_ids h' r' =
             todo_ids h r @ (if action_type a = ''ADD_TODO'' then [action_id a] else [])"
proof -
  consider "action_type a = ''ADD_TODO''" | "action_type a = ''TOGGLE_TODO''"
    | "action_type a \<noteq> ''ADD_TODO''" "action_type a \<noteq> ''TOGGLE_TODO''" by blast
  then show ?thesis
  proof cases
    case 1
    from todos_add_ids[OF 1 assms] 1 show ?thesis by simp
  next
    case 2
    from todos_toggle_ids[OF 2 assms] 2 show ?thesis by simp
  next
    case 3
    with assms show ?thesis by (simp add: todos_def todos_default_def)
  qed
qed

lemma todo_list_new_state:
  "todo_list h r \<Longrightarrow> todo_list (snd (new_state h s)) r"
  by (auto simp: todo_list_def new_state_def allocated_def list_all_iff split: option.splits)

lemma dispatch_ids:
  assumes "todo_list h (todos_slice (state_objs h s))"
  shows "\<exists>s' h'. dispatch h s a = Inr (s', h') \<and>
           todo_list h' (todos_slice (state_objs h' s')) \<and>
           todo_ids h' (todos_slice (state_objs h' s')) =
             todo_ids h (todos_slice (state_objs h s)) @
               (if action_type a = ''ADD_TODO'' then [action_id a] else [])"
proof -
  from todos_ids[OF assms, of a] obtain r' h1 where
    1: "todos h (Some (todos_slice (state_objs h s))) a = Inr (r', h1)" and
    2: "todo_list h1 r'" and
    3: "todo_ids h1 r' = todo_ids h (todos_slice (state_objs h s)) @
          (if action_type a = ''ADD_TODO'' then [action_id a] else [])" by blast
  let ?st = "\<lparr>todos_slice = r',
     visibilityFilter_slice = visibilityFilter (visibilityFilter_slice (state_objs h s)) a\<rparr>"
  have "dispatch h s a = Inr (new_state h1 ?st)"
    using 1 by (simp add: dispatch_def todoApp_def)
  moreover have "todos_slice (state_objs (snd (new_state h1 ?st)) (fst (new_state h1 ?st))) = r'"
    by (simp add: new_state_def)
  moreover have "todo_ids (snd (new_state h1 ?st)) r' = todo_ids h1 r'"
    by (simp add: todo_ids_def new_state_def cong: option.case_cong)
  ultimately show ?thesis
    using todo_list_new_state[OF 2, of ?st] 3
    by (cases "new_state h1 ?st") auto
qed

lemma dispatch_all_ids:
  "todo_list h (todos_slice (state_objs h s)) \<Longrightarrow>
   \<exists>s' h'. dispatch_all h s as = Inr (s', h') \<and>
           todo_list h' (todos_slice (state_objs h' s')) \<and>
           todo_ids h' (todos_slice (state_objs h' s')) =
             todo_ids h (todos_slice (state_objs h s)) @
               map action_id (filter (\<lambda>a. action_type a = ''ADD_TODO'') as)"
proof (induction as arbitrary: h s)
  case Nil
  then show ?case by simp
next
  case (Cons a as)
  from dispatch_ids[OF Cons.prems, of a] obtain s1 h1 where
    1: "dispatch h s a = Inr (s1, h1)" and
    2: "todo_list h1 (todos_slice (state_objs h1 s1))" and
    3: "todo_ids h1 (todos_slice (state_objs h1 s1)) =
          todo_ids h (todos_slice (state_objs h s)) @
            (if action_type a = ''ADD_TODO'' then [action_id a] else [])" by blast
  from Cons.IH[OF 2] 1 3 show ?case by auto
qed

lemma createStore_ids:
  "\<exists>s0 h0. createStore h = Inr (s0, h0) \<and> todo_list h0 (todos_slice (state_objs h0 s0)) \<and>
     todo_ids h0 (todos_slice (state_objs h0 s0)) = []"
  by (simp add: createStore_def todoApp_def todos_def todos_default_def init_action_def
      new_array_def new_state_def todo_list_def todo_ids_def)

lemma store_ids:
  "\<exists>s0 h0 s h'. createStore h = Inr (s0, h0) \<and>
      dispatch_all h0 s0 (fst (creates 0 evs)) = Inr (s, h') \<and>
      todo_ids h' (todos_slice (state_objs h' s)) =
        map (\<lambda>k. Some (min (int k) (2 ^ 53))) [0..<length (added_texts evs)]"
proof -
  from createStore_ids[of h] obtain s0 h0 where
    1: "createStore h = Inr (s0, h0)" "todo_list h0 (todos_slice (state_objs h0 s0))"
    "todo_ids h0 (todos_slice (state_objs h0 s0)) = []" by blast
  from dispatch_all_ids[OF 1(2), of "fst (creates 0 evs)"] obtain s h' where
    2: "dispatch_all h0 s0 (fst (creates 0 evs)) = Inr (s, h')"
    "todo_ids h' (todos_slice (state_objs h' s)) =
       todo_ids h0 (todos_slice (state_objs h0 s0)) @
         map action_id (filter (\<lambda>a. action_type a = ''ADD_TODO'') (fst (creates 0 evs)))"
    by blast
  from creates_add_ids[of 0 evs] 1(3) 2(2) have
    "todo_ids h' (todos_slice (state_objs h' s)) =
        map (\<lambda>k. Some (min (int k) (2 ^ 53))) [0..<length (added_texts evs)]" by simp
  with 1(1) 2(1) show ?thesis by blast
qed

lemma ids_below_limit:
  assumes "n \<le> 2 ^ 53 + 1"
  shows "map (\<lambda>k. Some (min (int k) (2 ^ 53))) [0..<n] = map (\<lambda>k. Some (int k)) [0..<n]"
proof (rule map_cong[OF refl])
  fix k assume "k \<in> set [0..<n]"
  with assms have "k \<le> 2 ^ 53" by simp
  then have "int k \<le> 2 ^ 53" by (metis of_nat_le_iff of_nat_numeral of_nat_power)
  then show "Some (min (int k) (2 ^ 53)) = Some (int k)" by simp
qed

text \<open>
  Claim C8, as stated, fails: the counter is a double, and \<open>2 ^ 53 + 1\<close> is not one.
  With the counter starting at 0, the call number \<open>2 ^ 53 + 1\<close> of \<open>addTodo\<close> returns
  the id \<open>2 ^ 53\<close> and leaves the counter at \<open>2 ^ 53\<close>, so the call number
  \<open>2 ^ 53 + 2\<close> (at index \<open>2 ^ 53 + 1\<close>) returns the id \<open>2 ^ 53\<close> again, not
  \<open>2 ^ 53 + 1\<close>: the ids of \<open>2 ^ 53 + 2\<close> calls are not pairwise distinct.
\<close>

theorem addTodo_ids_repeat_counterexample:
  "map action_id
     (filter (\<lambda>a. action_type a = ''ADD_TODO'')
        (fst (creates 0 (replicate (2 ^ 53 + 2) (AddTodo ''a''))))) ! (2 ^ 53 + 1) = Some (2 ^ 53) \<and>
   \<not> distinct (map action_id
     (filter (\<lambda>a. action_type a = ''ADD_TODO'')
        (fst (creates 0 (replicate (2 ^ 53 + 2) (AddTodo ''a''))))))"
proof -
  define n :: nat where "n = 2 ^ 53 + 2"
  define ids where "ids = map action_id
     (filter (\<lambda>a. action_type a = ''ADD_TODO'') (fst (creates 0 (replicate n (AddTodo ''a'')))))"
  have ids: "ids = map (\<lambda>k. Some (min (int k) (2 ^ 53))) [0..<n]"
    unfolding ids_def using creates_add_ids[of 0 "replicate n (AddTodo ''a'')"]
    by (simp add: added_texts_replicate)
  have i: "2 ^ 53 < n" "2 ^ 53 + 1 < n" by (simp_all add: n_def)
  have a: "ids ! (2 ^ 53) = Some (2 ^ 53)"
    unfolding ids using i(1) by simp
  have b: "ids ! (2 ^ 53 + 1) = Some (2 ^ 53)"
    unfolding ids using i(2) by simp
  have "\<not> distinct ids"
  proof
    assume "distinct ids"
    moreover have "2 ^ 53 < length ids" "2 ^ 53 + 1 < length ids"
      using i by (simp_all add: ids)
    moreover have "(2 ^ 53 :: nat) \<noteq> 2 ^ 53 + 1" by simp
    ultimately have "ids ! (2 ^ 53) \<noteq> ids ! (2 ^ 53 + 1)"
      using nth_eq_iff_index_eq[of ids "2 ^ 53" "2 ^ 53 + 1"] by blast
    with a b show False by simp
  qed
  with b show ?thesis unfolding ids_def n_def by simp
qed

text \<open>
  Claim C8, amended. With the counter \<open>nextTodoId\<close> starting at 0 and threaded through
  any sequence of calls of the action creators with at most \<open>2 ^ 53 + 1\<close> calls of
  \<open>addTodo\<close>, the \<^verbatim>\<open>ADD_TODO\<close> actions that \<open>addTodo\<close> returns carry, in the order of
  the calls, the ids 0, 1, 2, ...: the n-th call returns the id n - 1, so the ids are
  strictly increasing and pairwise distinct; the counter ends at the number of calls,
  or at \<open>2 ^ 53\<close> after call \<open>2 ^ 53 + 1\<close>. Dispatching the actions to a new store
  never raises, and the ids of the todos in the resulting state are 0, 1, ..., in
  order, one for each call of \<open>addTodo\<close>: they are pairwise distinct.
\<close>

theorem addTodo_ids_unique:
  assumes "length (added_texts evs) \<le> 2 ^ 53 + 1"
  shows
  "map action_id (filter (\<lambda>a. action_type a = ''ADD_TODO'') (fst (creates 0 evs))) =
     map (\<lambda>k. Some (int k)) [0..<length (added_texts evs)] \<and>
   distinct (map action_id (filter (\<lambda>a. action_type a = ''ADD_TODO'') (fst (creates 0 evs)))) \<and>
   snd (creates 0 evs) = min (int (length (added_texts evs))) (2 ^ 53) \<and>
   (\<exists>s0 h0 s h'. createStore h = Inr (s0, h0) \<and>
      dispatch_all h0 s0 (fst (creates 0 evs)) = Inr (s, h') \<and>
      todo_ids h' (todos_slice (state_objs h' s)) =
        map (\<lambda>k. Some (int k)) [0..<length (added_texts evs)] \<and>
      distinct (todo_ids h' (todos_slice (state_objs h' s))))"
proof -
  let ?n = "length (added_texts evs)"
  have d: "distinct (map (\<lambda>k. Some (int k)) [0..<?n])"
    by (simp add: distinct_map inj_on_def)
  from creates_add_ids[of 0 evs] ids_below_limit[OF assms] have
    1: "map action_id (filter (\<lambda>a. action_type a = ''ADD_TODO'') (fst (creates 0 evs))) =
     map (\<lambda>k. Some (int k)) [0..<?n]"
    and 2: "snd (creates 0 evs) = min (int ?n) (2 ^ 53)" by simp_all
  from store_ids[of h evs] ids_below_limit[OF assms] obtain s0 h0 s h' where
    3: "createStore h = Inr (s0, h0)"
    "dispatch_all h0 s0 (fst (creates 0 evs)) = Inr (s, h')"
    "todo_ids h' (todos_slice (state_objs h' s)) = map (\<lambda>k. Some (int k)) [0..<?n]"
    by auto
  have "\<exists>s0 h0 s h'. createStore h = Inr (s0, h0) \<and>
      dispatch_all h0 s0 (fst (creates 0 evs)) = Inr (s, h') \<and>
      todo_ids h' (todos_slice (state_objs h' s)) = map (\<lambda>k. Some (int k)) [0..<?n] \<and>
      distinct (todo_ids h' (todos_slice (state_objs h' s)))"
    using 3 d by (intro exI[of _ s0] exI[of _ h0] exI[of _ s] exI[of _ h']) (simp only: simp_thms)
  with 1 2 d show ?thesis by (simp only: simp_thms)
qed

theorem addTodo_ids_unique_witness:
  "map action_id
     (filter (\<lambda>a. action_type a = ''ADD_TODO'')
        (fst (creates 0 [AddTodo ''buy milk'', ToggleTodo 0, AddTodo ''walk dog'']))) =
     [Some 0, Some 1] \<and>
   snd (creates 0 [AddTodo ''buy milk'', ToggleTodo 0, AddTodo ''walk dog'']) = 2 \<and>
   (\<exists>s0 h0 s h'. createStore empty_heap = Inr (s0, h0) \<and>
      dispatch_all h0 s0 (fst (creates 0 [AddTodo ''buy milk'', ToggleTodo 0, AddTodo ''walk dog''])) =
        Inr (s, h') \<and>
      todo_ids h' (todos_slice (state_objs h' s)) = [Some 0, Some 1])"
proof -
  define evs where "evs = [AddTodo ''buy milk'', ToggleTodo 0, AddTodo ''walk dog'']"
  have n: "length (added_texts evs) = 2" by (simp add: evs_def)
  have u: "map (\<lambda>k. Some (int k)) [0..<2] = [Some 0, Some 1]"
    by (simp add: upt_rec numeral_2_eq_2)
  have "length (added_texts evs) \<le> 2 ^ 53 + 1" by (simp add: n)
  from addTodo_ids_unique [OF this, of empty_heap]
  have "map action_id (filter (\<lambda>a. action_type a = ''ADD_TODO'') (fst (creates 0 evs))) =
     [Some 0, Some 1] \<and>
   snd (creates 0 evs) = 2 \<and>
   (\<exists>s0 h0 s h'. createStore empty_heap = Inr (s0, h0) \<and>
      dispatch_all h0 s0 (fst (creates 0 evs)) = Inr (s, h') \<and>
      todo_ids h' (todos_slice (state_objs h' s)) = [Some 0, Some 1])"
    unfolding n u by auto
  then show ?thesis unfolding evs_def .
qed

end
